theory Spec2Isabelle
  imports Main "HOL-Library.Multiset"
begin

section \<open>Strings and errors\<close>

text \<open>
  A Python \<open>str\<close> is modelled as a HOL \<open>string\<close>, each \<open>char\<close> read as the code point
  of the same number (0 to 255). In that range the class \<open>\d\<close> of the \<open>re\<close> module is the
  ten characters \<open>0\<close> to \<open>9\<close>.

  Every failure of the source is a \<open>RuntimeError\<close> with a formatted message, a \<open>KeyError\<close>
  or \<open>IndexError\<close> of an indexing expression, or an exception of a library call, which
  the model receives from the library as a value.
\<close>

datatype error =
    RuntimeError string
  | KeyError string
  | IndexError
  | LibraryError string

definition is_digit :: "char \<Rightarrow> bool" where
  "is_digit c = (48 \<le> (of_char c :: nat) \<and> (of_char c :: nat) \<le> 57)"

text \<open>
  \<open>findall(r'(\d+)', s)\<close>: the scan goes left to right; at a digit the greedy \<open>\d+\<close> takes
  the whole run of digits and the scan resumes behind it; any other character is skipped.
\<close>

function findall_digits :: "string \<Rightarrow> string list" where
  "findall_digits [] = []"
| "findall_digits (c # cs) =
     (if is_digit c
      then takeWhile is_digit (c # cs) # findall_digits (dropWhile is_digit cs)
      else findall_digits cs)"
  by pat_completeness auto
termination
  by (relation "measure length") (auto simp: length_dropWhile_le less_Suc_eq_le)

section \<open>The archive identifier\<close>

text \<open>
  \<^verbatim>\<open>
  def __get_archive_id(self) -> str:
      archive_id_pattern = findall(r'(\d+)', self.url)
      if len(archive_id_pattern) < 2:
          raise RuntimeError(f'Cannot get archive ID from {self.url}')
      return archive_id_pattern[1]
  \<close>
\<close>

definition get_archive_id :: "string \<Rightarrow> error + string" where
  "get_archive_id url =
     (let archive_id_pattern = findall_digits url
      in if length archive_id_pattern < 2
         then Inl (RuntimeError (''Cannot get archive ID from '' @ url))
         else Inr (archive_id_pattern ! 1))"

subsection \<open>Numeric substrings, as the specification counts them\<close>

text \<open>
  A numeric substring is a maximal run of digits. Each run has one first character: a
  digit that opens the string or follows a character that is not a digit.
  \<open>numeric_substring_count\<close> counts these places and does not refer to the scan above.
\<close>

definition numeric_substring_count :: "string \<Rightarrow> nat" where
  "numeric_substring_count s =
     length (filter (\<lambda>(a, b). \<not> is_digit a \<and> is_digit b) (zip (CHR ''/'' # s) s))"

definition digit_free :: "string \<Rightarrow> bool" where
  "digit_free s = list_all (\<lambda>c. \<not> is_digit c) s"

definition numeric :: "string \<Rightarrow> bool" where
  "numeric s = (s \<noteq> [] \<and> list_all is_digit s)"


section \<open>Text helpers of the manifest client\<close>

text \<open>\<open>str(n)\<close> inside an f-string: the decimal numeral of a Python integer.\<close>

function string_of_nat :: "nat \<Rightarrow> string" where
  "string_of_nat n =
     (if n < 10 then [char_of (48 + n)]
      else string_of_nat (n div 10) @ [char_of (48 + n mod 10)])"
  by pat_completeness auto
termination
  by (relation "measure id") auto

declare string_of_nat.simps [simp del]

definition str_int :: "int \<Rightarrow> string" where
  "str_int i = (if i < 0 then CHR ''-'' # string_of_nat (nat (- i)) else string_of_nat (nat i))"

text \<open>
  \<open>str.splitlines()\<close>: a line ends at a line boundary; \<open>\r\n\<close> is one boundary; the
  boundaries are not kept, and a boundary at the very end opens no further line.
\<close>

definition is_linebreak :: "char \<Rightarrow> bool" where
  "is_linebreak c = ((of_char c :: nat) \<in> {10, 11, 12, 13, 28, 29, 30, 133})"

function splitlines :: "string \<Rightarrow> string list" where
  "splitlines [] = []"
| "splitlines (c # cs) =
     takeWhile (\<lambda>x. \<not> is_linebreak x) (c # cs) #
       (case dropWhile (\<lambda>x. \<not> is_linebreak x) (c # cs) of
          [] \<Rightarrow> []
        | b # r \<Rightarrow>
            (case r of
               [] \<Rightarrow> []
             | b' # r' \<Rightarrow>
                 if (of_char b :: nat) = 13 \<and> (of_char b' :: nat) = 10 then splitlines r'
                 else splitlines r))"
  by pat_completeness auto
termination
proof (relation "measure length")
  show "wf (measure length)" by simp
next
  fix c cs b r b' r'
  assume a: "dropWhile (\<lambda>x. \<not> is_linebreak x) (c # cs) = b # r" "r = b' # r'"
  have "length (dropWhile (\<lambda>x. \<not> is_linebreak x) (c # cs)) \<le> length (c # cs)"
    by (rule length_dropWhile_le)
  with a show "(r', c # cs) \<in> measure length" by simp
next
  fix c cs b r b' r'
  assume a: "dropWhile (\<lambda>x. \<not> is_linebreak x) (c # cs) = b # r" "r = b' # r'"
  have "length (dropWhile (\<lambda>x. \<not> is_linebreak x) (c # cs)) \<le> length (c # cs)"
    by (rule length_dropWhile_le)
  with a show "(r, c # cs) \<in> measure length" by simp
qed

text \<open>\<open>sub in s\<close> on strings: \<open>sub\<close> occurs in \<open>s\<close> as a contiguous substring.\<close>

fun contains :: "string \<Rightarrow> string \<Rightarrow> bool" where
  "contains sub [] = (sub = [])"
| "contains sub (c # cs) = (take (length sub) (c # cs) = sub \<or> contains sub cs)"

text \<open>
  \<open>search(r'\'([A-Za-z0-9.:/-]*)\'', line)\<close>, group 1 of the leftmost match. A quote is
  not in the class, so the greedy star stops at the first character outside the class and
  the match succeeds at an opening quote exactly when that character is a quote.
\<close>

definition url_char :: "char \<Rightarrow> bool" where
  "url_char c =
     (let n = (of_char c :: nat)
      in (65 \<le> n \<and> n \<le> 90) \<or> (97 \<le> n \<and> n \<le> 122) \<or> (48 \<le> n \<and> n \<le> 57) \<or>
         n = 46 \<or> n = 58 \<or> n = 47 \<or> n = 45)"

fun search_quoted :: "string \<Rightarrow> string option" where
  "search_quoted [] = None"
| "search_quoted (c # cs) =
     (if (of_char c :: nat) = 39
      then (case dropWhile url_char cs of
              [] \<Rightarrow> search_quoted cs
            | q # _ \<Rightarrow>
                if (of_char q :: nat) = 39 then Some (takeWhile url_char cs)
                else search_quoted cs)
      else search_quoted cs)"

section \<open>Data model\<close>

type_synonym bytes = "char list"

text \<open>
  The manifest is taken in the shape the code reads: \<open>sequences[i].canvases[]\<close>, each
  canvas with its \<open>label\<close> and the \<open>resource.@id\<close> of each of its \<open>images\<close>, and
  \<open>metadata[]\<close> as pairs of \<open>label\<close> and \<open>value\<close>.
\<close>

record canvas =
  label :: string
  images :: "string list"

record manifest =
  sequences :: "canvas list list"
  metadata :: "(string \<times> string) list"

text \<open>An HTTP reply; \<open>headers\<close> is the lookup of the header dictionary.\<close>

record reply =
  status :: int
  headers :: "string \<Rightarrow> string option"
  data :: bytes

text \<open>
  Calls into libraries whose code is not part of the repository: the \<open>email\<close> module's
  reading of a Content-Type header value, \<open>bytes.decode\<close>, \<open>json.loads\<close> (with the
  result in the shape above), \<open>mimetypes.guess_extension\<close> and \<open>slugify\<close>.
\<close>

record lib =
  content_type_of :: "string \<Rightarrow> string"
  content_charset_of :: "string \<Rightarrow> string option"
  decode :: "bytes \<Rightarrow> string option \<Rightarrow> error + string"
  loads :: "string \<Rightarrow> error + manifest"
  guess_extension :: "string \<Rightarrow> string option"
  slugify :: "string \<Rightarrow> string"

text \<open>
  A connection pool answers a GET with a reply or with an exception of the HTTP library.
  The first argument numbers the request: the n-th request of the manifest client, or the
  request of the n-th submitted unit of work. The same locator may be answered differently
  by different requests.
\<close>

type_synonym network = "nat \<Rightarrow> string \<Rightarrow> error + reply"

record downloader =
  url :: string
  archive_id :: string
  manifest :: manifest
  canvases :: "canvas list"
  dirname :: string
  gallery_length :: nat

section \<open>The manifest client\<close>

text \<open>
  \<^verbatim>\<open>
  msg['Content-Type'] = headers['Content-Type']
  return msg.get_content_type()        # resp. msg.get_content_charset()
  \<close>
\<close>

definition get_content_type :: "lib \<Rightarrow> (string \<Rightarrow> string option) \<Rightarrow> error + string" where
  "get_content_type lb hdrs =
     (case hdrs ''Content-Type'' of
        None \<Rightarrow> Inl (KeyError ''Content-Type'')
      | Some v \<Rightarrow> Inr (content_type_of lb v))"

definition get_content_charset ::
  "lib \<Rightarrow> (string \<Rightarrow> string option) \<Rightarrow> error + string option" where
  "get_content_charset lb hdrs =
     (case hdrs ''Content-Type'' of
        None \<Rightarrow> Inl (KeyError ''Content-Type'')
      | Some v \<Rightarrow> Inr (content_charset_of lb v))"

text \<open>The tail shared by both requests: decode the body with the declared charset.\<close>

definition decode_body :: "lib \<Rightarrow> reply \<Rightarrow> error + string" where
  "decode_body lb http_reply =
     (case get_content_charset lb (headers http_reply) of
        Inl e \<Rightarrow> Inl e
      | Inr charset \<Rightarrow> decode lb (data http_reply) charset)"

definition get_iiif_manifest :: "lib \<Rightarrow> network \<Rightarrow> string \<Rightarrow> error + manifest" where
  "get_iiif_manifest lb pool locator =
     (case pool 0 locator of
        Inl e \<Rightarrow> Inl e
      | Inr http_reply \<Rightarrow>
          if status http_reply \<noteq> 200
          then Inl (RuntimeError (locator @ '': HTTP error '' @ str_int (status http_reply)))
          else
            (case decode_body lb http_reply of
               Inl e \<Rightarrow> Inl e
             | Inr text \<Rightarrow>
                 (case find (contains ''manifestId'') (splitlines text) of
                    None \<Rightarrow> Inl (RuntimeError (''No IIIF manifest found at '' @ locator))
                  | Some manifest_line \<Rightarrow>
                      (case search_quoted manifest_line of
                         None \<Rightarrow>
                           Inl (RuntimeError (''Invalid IIIF manifest line found at '' @ locator))
                       | Some manifest_url \<Rightarrow>
                           (case pool 1 manifest_url of
                              Inl e \<Rightarrow> Inl e
                            | Inr http_reply2 \<Rightarrow>
                                if status http_reply2 \<noteq> 200
                                then Inl (RuntimeError
                                       (locator @ '': HTTP error '' @ str_int (status http_reply2)))
                                else
                                  (case decode_body lb http_reply2 of
                                     Inl e \<Rightarrow> Inl e
                                   | Inr doc \<Rightarrow> loads lb doc))))))"

text \<open>
  \<^verbatim>\<open>
  try:
      return next((i['value'] for i in self.manifest['metadata'] if i['label'] == label))
  except StopIteration as exc:
      raise RuntimeError(f'Cannot get {label} from manifest') from exc
  \<close>
\<close>

definition get_metadata_content :: "manifest \<Rightarrow> string \<Rightarrow> error + string" where
  "get_metadata_content m lbl =
     (case map snd (filter (\<lambda>i. fst i = lbl) (metadata m)) of
        [] \<Rightarrow> Inl (RuntimeError (''Cannot get '' @ lbl @ '' from manifest''))
      | v # _ \<Rightarrow> Inr v)"

definition generate_dirname :: "lib \<Rightarrow> manifest \<Rightarrow> string \<Rightarrow> error + string" where
  "generate_dirname lb m aid =
     (case get_metadata_content m ''Contesto archivistico'' of
        Inl e \<Rightarrow> Inl e
      | Inr context \<Rightarrow>
          (case get_metadata_content m ''Titolo'' of
             Inl e \<Rightarrow> Inl e
           | Inr year \<Rightarrow>
               (case get_metadata_content m ''Tipologia'' of
                  Inl e \<Rightarrow> Inl e
                | Inr typology \<Rightarrow>
                    Inr (slugify lb (context @ ''-'' @ year @ ''-'' @ typology @ ''-'' @ aid)))))"

text \<open>
  \<open>xs[first:last]\<close>: a negative bound counts from the end, every bound is clamped to the
  list, and an absent \<open>last\<close> is the length.
\<close>

definition slice_bound :: "nat \<Rightarrow> int \<Rightarrow> nat" where
  "slice_bound n i = (if i < 0 then nat (max 0 (int n + i)) else min (nat i) n)"

definition py_slice :: "'a list \<Rightarrow> int \<Rightarrow> int option \<Rightarrow> 'a list" where
  "py_slice xs first last_opt =
     (let lo = slice_bound (length xs) first;
          hi = (case last_opt of None \<Rightarrow> length xs | Some l \<Rightarrow> slice_bound (length xs) l)
      in take (hi - lo) (drop lo xs))"

text \<open>
  \<^verbatim>\<open>
  def __init__(self, url: str, first: int, last: int|None):
      self.url = url
      self.archive_id = self.__get_archive_id()
      self.manifest = self.__get_iiif_manifest()
      self.canvases = self.manifest['sequences'][0]['canvases'][first:last]
      self.dirname = self.__generate_dirname()
      self.gallery_length = len(self.canvases)
  \<close>
\<close>

definition init :: "lib \<Rightarrow> network \<Rightarrow> string \<Rightarrow> int \<Rightarrow> int option \<Rightarrow> error + downloader" where
  "init lb pool locator first last_opt =
     (case get_archive_id locator of
        Inl e \<Rightarrow> Inl e
      | Inr aid \<Rightarrow>
          (case get_iiif_manifest lb pool locator of
             Inl e \<Rightarrow> Inl e
           | Inr m \<Rightarrow>
               (case sequences m of
                  [] \<Rightarrow> Inl IndexError
                | s0 # _ \<Rightarrow>
                    (let cs = py_slice s0 first last_opt
                     in case generate_dirname lb m aid of
                          Inl e \<Rightarrow> Inl e
                        | Inr dn \<Rightarrow>
                            Inr \<lparr>url = locator, archive_id = aid, manifest = m, canvases = cs,
                                 dirname = dn, gallery_length = length cs\<rparr>))))"

section \<open>The fetch engine\<close>

text \<open>
  What a run can touch: the files of the working directory, the GET requests issued so
  far, the futures that have finished, and the calls the main thread has made, in program
  order: \<open>executor.submit\<close>, \<open>progress.set_total\<close> and \<open>progress.update\<close>.
\<close>

datatype event = Submit nat | SetTotal nat | Update

record world =
  files :: "string \<Rightarrow> bytes option"
  requests :: "string list"
  finished :: "nat list"
  main_log :: "event list"

text \<open>
  \<^verbatim>\<open>
  def __thread_main(pool: HTTPSConnectionPool, canvas: dict[str, Any]) -> int:
      url = canvas['images'][0]['resource']['@id']
      http_reply = pool.request('GET', url)
      if http_reply.status != 200:
          raise RuntimeError(f'{url}: HTTP error {http_reply.status}')
      content_type = AntenatiDownloader.__get_content_type(http_reply.headers)
      extension = guess_extension(content_type)
      if not extension:
          raise RuntimeError(f'{url}: Unable to guess extension "{content_type}"')
      label = slugify(canvas['label'])
      filename = f'{label}{extension}'
      with open(filename, 'wb') as img_file:
          img_file.write(http_reply.data)
      http_reply_size = len(http_reply.data)
      return http_reply_size
  \<close>
  \<open>not extension\<close> holds for \<open>None\<close> and for the empty string. Opening a file for writing
  creates it or replaces its content.
\<close>

definition unable_to_guess :: "string \<Rightarrow> string \<Rightarrow> error" where
  "unable_to_guess img_url content_type =
     RuntimeError (img_url @ '': Unable to guess extension '' @ [CHR 0x22] @ content_type @ [CHR 0x22])"

definition thread_main ::
  "lib \<Rightarrow> (string \<Rightarrow> error + reply) \<Rightarrow> canvas \<Rightarrow> world \<Rightarrow> (error + nat) \<times> world" where
  "thread_main lb pool c w =
     (case images c of
        [] \<Rightarrow> (Inl IndexError, w)
      | img_url # _ \<Rightarrow>
          (let w1 = w\<lparr>requests := requests w @ [img_url]\<rparr>
           in case pool img_url of
                Inl e \<Rightarrow> (Inl e, w1)
              | Inr http_reply \<Rightarrow>
                  if status http_reply \<noteq> 200
                  then (Inl (RuntimeError
                          (img_url @ '': HTTP error '' @ str_int (status http_reply))), w1)
                  else
                    (case get_content_type lb (headers http_reply) of
                       Inl e \<Rightarrow> (Inl e, w1)
                     | Inr content_type \<Rightarrow>
                         (case guess_extension lb content_type of
                            None \<Rightarrow> (Inl (unable_to_guess img_url content_type), w1)
                          | Some extension \<Rightarrow>
                              if extension = []
                              then (Inl (unable_to_guess img_url content_type), w1)
                              else
                                (let lbl = slugify lb (label c);
                                     filename = lbl @ extension;
                                     w2 = w1\<lparr>files := (files w1)(filename \<mapsto> data http_reply)\<rparr>
                                 in (Inr (length (data http_reply)), w2))))))"

text \<open>
  The units of work run concurrently. The model takes each unit as one step and is given
  the order in which the futures complete: \<open>future_img\<close> pairs each future, numbered by
  submission, with its canvas, and a completion order is a permutation of these pairs.
  Every unit is taken to return: the engine sets no timeout.
\<close>

definition future_img :: "canvas list \<Rightarrow> (nat \<times> canvas) list" where
  "future_img cs = zip [0..<length cs] cs"

definition completion_order :: "canvas list \<Rightarrow> (nat \<times> canvas) list \<Rightarrow> bool" where
  "completion_order cs sched = (mset sched = mset (future_img cs))"

definition unit_of_work ::
  "lib \<Rightarrow> network \<Rightarrow> nat \<times> canvas \<Rightarrow> world \<Rightarrow> (error + nat) \<times> world" where
  "unit_of_work lb net fc w =
     (let (r, w1) = thread_main lb (net (fst fc)) (snd fc) w
      in (r, w1\<lparr>finished := finished w1 @ [fst fc]\<rparr>))"

text \<open>
  Leaving the \<open>with\<close> block, by \<open>return\<close> or by an exception, shuts the executor down
  with \<open>wait=True\<close>: the units that have not completed yet run to their end, and their
  results are dropped.
\<close>

fun shutdown :: "lib \<Rightarrow> network \<Rightarrow> (nat \<times> canvas) list \<Rightarrow> world \<Rightarrow> world" where
  "shutdown lb net [] w = w"
| "shutdown lb net (fc # rest) w = shutdown lb net rest (snd (unit_of_work lb net fc w))"

text \<open>
  \<^verbatim>\<open>
  for future in as_completed(future_img):
      progress.update()
      size = future.result()
      gallery_size += size
  return gallery_size
  \<close>
  \<open>future.result()\<close> returns the unit's byte count or raises the unit's exception, which
  leaves \<open>run\<close> through the \<open>with\<close> block.
\<close>

fun as_completed ::
  "lib \<Rightarrow> network \<Rightarrow> (nat \<times> canvas) list \<Rightarrow> nat \<Rightarrow> world \<Rightarrow> (error + nat) \<times> world" where
  "as_completed lb net [] gallery_size w = (Inr gallery_size, w)"
| "as_completed lb net (fc # rest) gallery_size w =
     (let (r, w1) = unit_of_work lb net fc w;
          w2 = w1\<lparr>main_log := main_log w1 @ [Update]\<rparr>
      in case r of
           Inl e \<Rightarrow> (Inl e, shutdown lb net rest w2)
         | Inr sz \<Rightarrow> as_completed lb net rest (gallery_size + sz) w2)"

text \<open>
  \<^verbatim>\<open>
  def run(self, n_workers: int, n_connections: int, progress: ProgressBar) -> int:
      with self.__executor(n_workers) as executor, self.__pool(n_connections) as pool:
          future_img = {executor.submit(self.__thread_main, pool, i): i for i in self.canvases}
          progress.set_total(self.gallery_length)
          gallery_size = 0
          ...
  \<close>
  \<open>ThreadPoolExecutor\<close> refuses a worker count below one with a \<open>ValueError\<close>. The
  connection limit bounds how many requests overlap and is taken positive, as the
  worker count is in every statement below.
\<close>

definition run ::
  "lib \<Rightarrow> network \<Rightarrow> downloader \<Rightarrow> int \<Rightarrow> int \<Rightarrow> (nat \<times> canvas) list \<Rightarrow> world
     \<Rightarrow> (error + nat) \<times> world" where
  "run lb net d n_workers n_connections sched w =
     (if n_workers \<le> 0
      then (Inl (LibraryError ''ValueError: max_workers must be greater than 0''), w)
      else
        (let w1 = w\<lparr>main_log := main_log w @ map (\<lambda>fc. Submit (fst fc)) (future_img (canvases d))\<rparr>;
             w2 = w1\<lparr>main_log := main_log w1 @ [SetTotal (gallery_length d)]\<rparr>
         in as_completed lb net sched 0 w2))"

definition empty_world :: world where
  "empty_world = \<lparr>files = Map.empty, requests = [], finished = [], main_log = []\<rparr>"

text \<open>What a unit returns, and the names of the files it writes: neither depends on
  the state of the world in which the unit runs.\<close>

definition unit_outcome :: "lib \<Rightarrow> (string \<Rightarrow> error + reply) \<Rightarrow> canvas \<Rightarrow> error + nat" where
  "unit_outcome lb pool c = fst (thread_main lb pool c empty_world)"


section \<open>The slug\<close>

text \<open>
  Modelled from the spec: \<open>slugify\<close> belongs to a package whose code is not in the
  repository. The spec describes \<open>slug\<close> as the operation that "transliterates and
  normalizes a display label into a filesystem- and CSV-safe token (ASCII letters/digits/
  hyphens only, case-folded)", the result being "lower-case, ASCII-transliterated,
  separator-normalized". The transliteration table \<open>tr\<close> for the characters outside
  ASCII is a parameter.
\<close>

definition is_ascii :: "char \<Rightarrow> bool" where
  "is_ascii c = ((of_char c :: nat) < 128)"

text \<open>Modelled from the spec: "ASCII-transliterated"; an ASCII character stands for itself.\<close>

definition transliterate :: "(char \<Rightarrow> string) \<Rightarrow> string \<Rightarrow> string" where
  "transliterate tr s = concat (map (\<lambda>c. if is_ascii c then [c] else tr c) s)"

text \<open>Modelled from the spec: "case-folded", "lower-case".\<close>

definition case_fold :: "char \<Rightarrow> char" where
  "case_fold c =
     (if 65 \<le> (of_char c :: nat) \<and> (of_char c :: nat) \<le> 90
      then char_of ((of_char c :: nat) + 32) else c)"

text \<open>Modelled from the spec: the letters and digits a slug keeps.\<close>

definition slug_alnum :: "char \<Rightarrow> bool" where
  "slug_alnum c =
     ((97 \<le> (of_char c :: nat) \<and> (of_char c :: nat) \<le> 122) \<or>
      (48 \<le> (of_char c :: nat) \<and> (of_char c :: nat) \<le> 57))"

text \<open>
  Modelled from the spec: "separator-normalized", "letters/digits/hyphens only": every
  maximal run of other characters becomes one hyphen.
\<close>

function hyphenate :: "string \<Rightarrow> string" where
  "hyphenate [] = []"
| "hyphenate (c # cs) =
     (if slug_alnum c then c # hyphenate cs
      else CHR ''-'' # hyphenate (dropWhile (\<lambda>x. \<not> slug_alnum x) cs))"
  by pat_completeness auto
termination
  by (relation "measure length") (auto simp: length_dropWhile_le less_Suc_eq_le)

text \<open>Modelled from the spec: a token carries no separator at either end.\<close>

definition strip_hyphens :: "string \<Rightarrow> string" where
  "strip_hyphens s =
     rev (dropWhile (\<lambda>x. x = CHR ''-'') (rev (dropWhile (\<lambda>x. x = CHR ''-'') s)))"

text \<open>Modelled from the spec: \<open>slug(label)\<close>, the four steps in turn.\<close>

definition slug :: "(char \<Rightarrow> string) \<Rightarrow> string \<Rightarrow> string" where
  "slug tr x = strip_hyphens (hyphenate (map case_fold (transliterate tr x)))"

text \<open>The shape of a hyphenated string: letters, digits and single hyphens.\<close>

fun slugged :: "string \<Rightarrow> bool" where
  "slugged [] = True"
| "slugged (c # cs) =
     (if slug_alnum c then slugged cs
      else c = CHR ''-'' \<and> (cs = [] \<or> slug_alnum (hd cs)) \<and> slugged cs)"

section \<open>A concrete gallery\<close>

text \<open>
  A small instance of the library and of the network, for concrete runs. The extension
  table is an excerpt of the default table of the \<open>mimetypes\<close> module, which maps
  \<open>application/octet-stream\<close> to \<open>.bin\<close>; \<open>bare_lib\<close> is the same library over a
  table without that entry.
\<close>

definition demo_types_map :: "string \<Rightarrow> string option" where
  "demo_types_map t =
     (if t = ''image/jpeg'' then Some ''.jpg''
      else if t = ''image/png'' then Some ''.png''
      else if t = ''application/octet-stream'' then Some ''.bin''
      else None)"

definition demo_lib :: lib where
  "demo_lib =
     \<lparr>content_type_of = (\<lambda>v. map case_fold (takeWhile (\<lambda>x. x \<noteq> CHR '';'') v)),
      content_charset_of = (\<lambda>v. Some ''utf-8''),
      decode = (\<lambda>b charset. Inr b),
      loads = (\<lambda>doc. Inl (LibraryError ''JSONDecodeError'')),
      guess_extension = demo_types_map,
      slugify = slug (\<lambda>x. ''?'')\<rparr>"

definition bare_lib :: lib where
  "bare_lib =
     demo_lib\<lparr>guess_extension := (\<lambda>t. if t = ''image/jpeg'' then Some ''.jpg'' else None)\<rparr>"

definition jpeg_reply :: reply where
  "jpeg_reply =
     \<lparr>status = 200, headers = [''Content-Type'' \<mapsto> ''image/jpeg''], data = ''0123456789''\<rparr>"

definition octet_reply :: reply where
  "octet_reply =
     \<lparr>status = 200, headers = [''Content-Type'' \<mapsto> ''application/octet-stream''],
      data = ''0123''\<rparr>"

definition not_found_reply :: reply where
  "not_found_reply = \<lparr>status = 404, headers = Map.empty, data = []\<rparr>"

definition landing_page :: reply where
  "landing_page =
     \<lparr>status = 200, headers = [''Content-Type'' \<mapsto> ''text/html; charset=utf-8''],
      data = ''<script>\<newline>  manifestId: '' @ [CHR 0x27] @ ''https://dam/m/1'' @ [CHR 0x27] @
             '',\<newline></script>''\<rparr>"

definition demo_locator :: string where
  "demo_locator = ''https://antenati.cultura.gov.it/ark:/12657/an_ua19944535/w9DWR8x''"

definition demo_pool :: network where
  "demo_pool n u = (if u = demo_locator then Inr landing_page else Inr not_found_reply)"

definition demo_manifest :: manifest where
  "demo_manifest =
     \<lparr>sequences = [[\<lparr>label = ''Pagina 1'', images = [''https://iiif/1.jpg'']\<rparr>,
                    \<lparr>label = ''Pagina 2'', images = [''https://iiif/2.jpg'']\<rparr>,
                    \<lparr>label = ''Pagina 3'', images = [''https://iiif/3.jpg'']\<rparr>]],
      metadata = [(''Titolo'', ''1820''), (''Tipologia'', ''Nati''), (''Titolo'', ''1821'')]\<rparr>"

definition demo_downloader :: downloader where
  "demo_downloader =
     \<lparr>url = demo_locator, archive_id = ''19944535'', manifest = demo_manifest,
      canvases = hd (sequences demo_manifest), dirname = ''stato-civile-1820-nati-19944535'',
      gallery_length = 3\<rparr>"

definition demo_images :: network where
  "demo_images i u = Inr jpeg_reply"


text \<open>
  The order claimed for the progress sink: no \<open>submit\<close> among the calls of the main
  thread that come before its first \<open>set_total\<close>.
\<close>

fun is_set_total :: "event \<Rightarrow> bool" where
  "is_set_total (SetTotal n) = True"
| "is_set_total e = False"

fun is_submit :: "event \<Rightarrow> bool" where
  "is_submit (Submit i) = True"
| "is_submit e = False"

definition total_set_before_submits :: "event list \<Rightarrow> bool" where
  "total_set_before_submits evs =
     list_all (\<lambda>e. \<not> is_submit e) (takeWhile (\<lambda>e. \<not> is_set_total e) evs)"

section \<open>Properties of the archive identifier\<close>

lemma count_aux:
  "length (filter (\<lambda>(a, b). \<not> is_digit a \<and> is_digit b) (zip (prev # s) s)) =
     (if is_digit prev then length (findall_digits (dropWhile is_digit s))
      else length (findall_digits s))"
  by (induction s arbitrary: prev) auto

lemma slash_not_digit: "\<not> is_digit (CHR ''/'')"
  by (simp add: is_digit_def)

lemma length_findall_digits: "length (findall_digits s) = numeric_substring_count s"
  unfolding numeric_substring_count_def by (simp add: count_aux slash_not_digit)

lemma findall_digits_skip:
  "digit_free p \<Longrightarrow> findall_digits (p @ s) = findall_digits s"
  by (induction p) (auto simp: digit_free_def)

lemma findall_digits_token:
  "numeric t \<Longrightarrow> r = [] \<or> \<not> is_digit (hd r) \<Longrightarrow> findall_digits (t @ r) = t # findall_digits r"
proof -
  assume t: "numeric t" and r: "r = [] \<or> \<not> is_digit (hd r)"
  from t obtain c cs where tc: "t = c # cs" and c: "is_digit c" and cs: "\<forall>x\<in>set cs. is_digit x"
    by (cases t) (auto simp: numeric_def list_all_iff)
  from r have tw: "takeWhile is_digit (cs @ r) = cs"
    using cs by (cases r) (auto simp: takeWhile_append2)
  from r have dw: "dropWhile is_digit (cs @ r) = r"
    using cs by (cases r) (auto simp: dropWhile_append2)
  show ?thesis using c tw dw by (simp add: tc)
qed

lemma findall_digits_Cons:
  "findall_digits s = t # ts \<Longrightarrow>
     \<exists>p r. s = p @ t @ r \<and> digit_free p \<and> numeric t \<and> (r = [] \<or> \<not> is_digit (hd r))
        \<and> findall_digits r = ts"
proof (induction s rule: findall_digits.induct)
  case 1
  then show ?case by simp
next
  case (2 c cs)
  show ?case
  proof (cases "is_digit c")
    case True
    with 2(3) have t: "t = takeWhile is_digit (c # cs)" and ts: "ts = findall_digits (dropWhile is_digit cs)"
      by auto
    let ?r = "dropWhile is_digit cs"
    have "c # cs = [] @ t @ ?r" using t True by simp
    moreover have "digit_free []" by (simp add: digit_free_def)
    moreover have "numeric t" using t True by (auto simp: numeric_def list_all_iff dest: set_takeWhileD)
    moreover have "?r = [] \<or> \<not> is_digit (hd ?r)" by (metis hd_dropWhile)
    ultimately show ?thesis using ts by blast
  next
    case False
    with 2(3) have "findall_digits cs = t # ts" by simp
    from 2(2)[OF False this] obtain p r where
      "cs = p @ t @ r" "digit_free p" "numeric t" "r = [] \<or> \<not> is_digit (hd r)" "findall_digits r = ts"
      by blast
    then have "c # cs = (c # p) @ t @ r" "digit_free (c # p)"
      using False by (auto simp: digit_free_def)
    then show ?thesis
      using \<open>numeric t\<close> \<open>r = [] \<or> \<not> is_digit (hd r)\<close> \<open>findall_digits r = ts\<close> by blast
  qed
qed


lemma get_archive_id_second:
  assumes "locator = p0 @ t1 @ p1 @ t2 @ r" "digit_free p0" "numeric t1" "p1 \<noteq> []" "digit_free p1"
    "numeric t2" "r = [] \<or> \<not> is_digit (hd r)"
  shows "get_archive_id locator = Inr t2"
proof -
  from assms(4,5) have "\<not> is_digit (hd (p1 @ t2 @ r))"
    by (cases p1) (auto simp: digit_free_def)
  then have "findall_digits (t1 @ p1 @ t2 @ r) = t1 # findall_digits (p1 @ t2 @ r)"
    using assms(3) by (intro findall_digits_token) auto
  then have "findall_digits locator = t1 # t2 # findall_digits r"
    using assms by (simp add: findall_digits_skip findall_digits_token)
  then show ?thesis by (simp add: get_archive_id_def)
qed

text \<open>
  Claim C4. A locator with fewer than two numeric substrings makes \<open>get_archive_id\<close>
  fail with the error that names the locator; a locator with at least two is a text
  without digits, a first run of digits, a separating text without digits, a second
  run of digits that ends at the end of the locator or before a character that is not
  a digit, and \<open>get_archive_id\<close> returns that second run.
\<close>

theorem get_archive_id_spec:
  "(numeric_substring_count locator < 2 \<longrightarrow>
      get_archive_id locator = Inl (RuntimeError (''Cannot get archive ID from '' @ locator))) \<and>
   (2 \<le> numeric_substring_count locator \<longrightarrow>
      (\<exists>p0 t1 p1 t2 r. locator = p0 @ t1 @ p1 @ t2 @ r \<and> digit_free p0 \<and> numeric t1 \<and>
          p1 \<noteq> [] \<and> digit_free p1 \<and> numeric t2 \<and> (r = [] \<or> \<not> is_digit (hd r)) \<and>
          get_archive_id locator = Inr t2))"
proof (intro conjI impI)
  assume "numeric_substring_count locator < 2"
  then show "get_archive_id locator = Inl (RuntimeError (''Cannot get archive ID from '' @ locator))"
    by (simp add: get_archive_id_def length_findall_digits)
next
  assume "2 \<le> numeric_substring_count locator"
  then have "2 \<le> length (findall_digits locator)" by (simp add: length_findall_digits)
  then obtain t1 t2 ts where f: "findall_digits locator = t1 # t2 # ts"
    by (cases "findall_digits locator"; cases "tl (findall_digits locator)") auto
  from findall_digits_Cons[OF f] obtain p0 r1 where
    1: "locator = p0 @ t1 @ r1" "digit_free p0" "numeric t1" "r1 = [] \<or> \<not> is_digit (hd r1)"
       "findall_digits r1 = t2 # ts"
    by blast
  from findall_digits_Cons[OF 1(5)] obtain p1 r where
    2: "r1 = p1 @ t2 @ r" "digit_free p1" "numeric t2" "r = [] \<or> \<not> is_digit (hd r)"
    by blast
  have ne: "p1 \<noteq> []"
  proof
    assume "p1 = []"
    with 2(1,3) have "is_digit (hd r1)" "r1 \<noteq> []"
      by (cases t2; auto simp: numeric_def)+
    with 1(4) show False by simp
  qed
  have u: "locator = p0 @ t1 @ p1 @ t2 @ r" using 1(1) 2(1) by simp
  have "get_archive_id locator = Inr t2"
    by (rule get_archive_id_second[OF u 1(2) 1(3) ne 2(2) 2(3) 2(4)])
  with u ne show "\<exists>p0 t1 p1 t2 r. locator = p0 @ t1 @ p1 @ t2 @ r \<and> digit_free p0 \<and> numeric t1 \<and>
          p1 \<noteq> [] \<and> digit_free p1 \<and> numeric t2 \<and> (r = [] \<or> \<not> is_digit (hd r)) \<and>
          get_archive_id locator = Inr t2"
    using 1(2,3) 2(2,3,4) by blast
qed

text \<open>The portal's own kind of locator has four numeric substrings; a locator with one fails.\<close>

theorem get_archive_id_spec_witness:
  "numeric_substring_count ''https://antenati.cultura.gov.it/ark:/12657/an_ua19944535/w9DWR8x'' = 4 \<and>
   get_archive_id ''https://antenati.cultura.gov.it/ark:/12657/an_ua19944535/w9DWR8x'' = Inr ''19944535'' \<and>
   numeric_substring_count ''https://example.org/gallery/42'' = 1 \<and>
   get_archive_id ''https://example.org/gallery/42'' =
     Inl (RuntimeError ''Cannot get archive ID from https://example.org/gallery/42'')"
proof -
  have a: "numeric_substring_count ''https://antenati.cultura.gov.it/ark:/12657/an_ua19944535/w9DWR8x'' = 4"
    by code_simp
  have b: "numeric_substring_count ''https://example.org/gallery/42'' = 1"
    by code_simp
  have c: "get_archive_id ''https://antenati.cultura.gov.it/ark:/12657/an_ua19944535/w9DWR8x'' = Inr ''19944535''"
    by code_simp
  from get_archive_id_spec[of "''https://example.org/gallery/42''"] b
  have d: "get_archive_id ''https://example.org/gallery/42'' =
     Inl (RuntimeError ''Cannot get archive ID from https://example.org/gallery/42'')"
    by simp
  from get_archive_id_spec[of "''https://antenati.cultura.gov.it/ark:/12657/an_ua19944535/w9DWR8x''"] a
  have "\<exists>t2. get_archive_id ''https://antenati.cultura.gov.it/ark:/12657/an_ua19944535/w9DWR8x'' = Inr t2"
    by auto
  with a b c d show ?thesis by simp
qed

section \<open>Properties of the slug\<close>

lemma hyphenate_head:
  "s = [] \<or> slug_alnum (hd s) \<Longrightarrow> hyphenate s = [] \<or> slug_alnum (hd (hyphenate s))"
  by (cases s) auto

lemma slugged_hyphenate: "slugged (hyphenate s)"
proof (induction s rule: hyphenate.induct)
  case 1
  then show ?case by simp
next
  case (2 c cs)
  show ?case
  proof (cases "slug_alnum c")
    case True
    with 2 show ?thesis by simp
  next
    case False
    let ?r = "dropWhile (\<lambda>x. \<not> slug_alnum x) cs"
    have "?r = [] \<or> slug_alnum (hd ?r)" using hd_dropWhile[of "\<lambda>x. \<not> slug_alnum x" cs] by auto
    then have "hyphenate ?r = [] \<or> slug_alnum (hd (hyphenate ?r))" by (rule hyphenate_head)
    moreover have "\<not> slug_alnum (CHR ''-'')" by (simp add: slug_alnum_def)
    ultimately show ?thesis using False 2(2) by simp
  qed
qed

lemma hyphenate_slugged: "slugged s \<Longrightarrow> hyphenate s = s"
proof (induction s)
  case Nil
  then show ?case by simp
next
  case (Cons c cs)
  show ?case
  proof (cases "slug_alnum c")
    case True
    with Cons show ?thesis by simp
  next
    case False
    with Cons.prems have c: "c = CHR ''-''" and h: "cs = [] \<or> slug_alnum (hd cs)" and s: "slugged cs"
      by auto
    from h have "dropWhile (\<lambda>x. \<not> slug_alnum x) cs = cs" by (cases cs) auto
    with False c Cons.IH[OF s] show ?thesis by simp
  qed
qed

lemma slugged_suffix: "slugged (a @ b) \<Longrightarrow> slugged b"
  by (induction a) (auto split: if_splits)

lemma slugged_prefix: "slugged (a @ b) \<Longrightarrow> slugged a"
proof (induction a)
  case Nil
  then show ?case by simp
next
  case (Cons c a)
  then show ?case by (cases a) (auto split: if_splits)
qed

lemma slugged_dropWhile: "slugged s \<Longrightarrow> slugged (dropWhile P s)"
  using slugged_suffix[of "takeWhile P s" "dropWhile P s"] by simp

lemma rev_dropWhile_rev_prefix: "rev (dropWhile P (rev z)) @ rev (takeWhile P (rev z)) = z"
proof -
  have "rev (takeWhile P (rev z) @ dropWhile P (rev z)) = z" by simp
  then show ?thesis by (simp only: rev_append)
qed

lemma slugged_strip: "slugged s \<Longrightarrow> slugged (strip_hyphens s)"
proof -
  assume "slugged s"
  then have "slugged (dropWhile (\<lambda>x. x = CHR ''-'') s)" by (rule slugged_dropWhile)
  then show ?thesis
    unfolding strip_hyphens_def
    using rev_dropWhile_rev_prefix[of "\<lambda>x. x = CHR ''-''" "dropWhile (\<lambda>x. x = CHR ''-'') s"]
    by (metis slugged_prefix)
qed

lemma dropWhile_fixed: "xs = [] \<or> \<not> P (hd xs) \<Longrightarrow> dropWhile P xs = xs"
  by (cases xs) auto

lemma rstrip_head:
  assumes "z = [] \<or> \<not> P (hd z)"
  shows "rev (dropWhile P (rev z)) = [] \<or> \<not> P (hd (rev (dropWhile P (rev z))))"
proof -
  define y where "y = rev (dropWhile P (rev z))"
  define t where "t = rev (takeWhile P (rev z))"
  have yz: "y @ t = z" unfolding y_def t_def by (rule rev_dropWhile_rev_prefix)
  have "y = [] \<or> \<not> P (hd y)"
  proof (cases y)
    case Nil
    then show ?thesis by simp
  next
    case (Cons a ys)
    with yz have "z = a # (ys @ t)" by simp
    with assms have "\<not> P a" by simp
    with Cons show ?thesis by simp
  qed
  then show ?thesis unfolding y_def .
qed

lemma strip_twice:
  "rev (dropWhile P (rev (dropWhile P (rev (dropWhile P (rev (dropWhile P s))))))) =
   rev (dropWhile P (rev (dropWhile P s)))"
proof -
  define z where "z = dropWhile P s"
  define y where "y = rev (dropWhile P (rev z))"
  have "z = [] \<or> \<not> P (hd z)" unfolding z_def using hd_dropWhile[of P s] by blast
  then have "y = [] \<or> \<not> P (hd y)" unfolding y_def by (rule rstrip_head)
  then have 1: "dropWhile P y = y" by (rule dropWhile_fixed)
  have 2: "rev y = dropWhile P (rev z)" unfolding y_def by simp
  have "rev (dropWhile P (rev (dropWhile P y))) = rev (dropWhile P (rev y))" by (simp only: 1)
  also have "\<dots> = rev (dropWhile P (dropWhile P (rev z)))" by (simp only: 2)
  also have "\<dots> = y" unfolding y_def by (simp only: dropWhile_idem)
  finally show ?thesis unfolding y_def z_def .
qed

lemma strip_hyphens_idem: "strip_hyphens (strip_hyphens s) = strip_hyphens s"
  unfolding strip_hyphens_def by (rule strip_twice)

lemma slugged_chars: "slugged s \<Longrightarrow> c \<in> set s \<Longrightarrow> slug_alnum c \<or> c = CHR ''-''"
  by (induction s) (auto split: if_splits)

lemma slug_char_ascii: "slug_alnum c \<or> c = CHR ''-'' \<Longrightarrow> is_ascii c \<and> case_fold c = c"
  by (auto simp: slug_alnum_def is_ascii_def case_fold_def)

lemma transliterate_slugged: "slugged s \<Longrightarrow> transliterate tr s = s"
proof -
  assume s: "slugged s"
  have "\<forall>c\<in>set s. is_ascii c" using slugged_chars[OF s] slug_char_ascii by blast
  then show ?thesis unfolding transliterate_def by (induction s) auto
qed

lemma case_fold_slugged: "slugged s \<Longrightarrow> map case_fold s = s"
proof -
  assume s: "slugged s"
  have "\<forall>c\<in>set s. case_fold c = c" using slugged_chars[OF s] slug_char_ascii by blast
  then show ?thesis by (induction s) auto
qed

lemma slugged_slug: "slugged (slug tr x)"
  unfolding slug_def by (rule slugged_strip) (rule slugged_hyphenate)

text \<open>
  Claim C8. The slug operation is idempotent: for every display label and every
  transliteration table, the slug of a slug is that slug.
\<close>

theorem slug_idempotent: "slug tr (slug tr x) = slug tr x"
proof -
  let ?y = "slug tr x"
  have y: "slugged ?y" by (rule slugged_slug)
  have "slug tr ?y = strip_hyphens (hyphenate (map case_fold (transliterate tr ?y)))"
    by (simp add: slug_def)
  also have "\<dots> = strip_hyphens ?y"
    by (simp only: transliterate_slugged[OF y] case_fold_slugged[OF y] hyphenate_slugged[OF y])
  also have "\<dots> = ?y" unfolding slug_def by (rule strip_hyphens_idem)
  finally show ?thesis .
qed

section \<open>Properties of the item range\<close>

lemma slice_bound_nonneg: "0 \<le> i \<Longrightarrow> i \<le> int n \<Longrightarrow> slice_bound n i = nat i"
  by (simp add: slice_bound_def)

text \<open>
  Claim C5. For a canvas sequence and non-negative \<open>first \<le> last \<le> len(canvases)\<close>, the
  slice \<open>canvases[first:last]\<close> has exactly \<open>last - first\<close> items; with \<open>last\<close> absent
  and \<open>first\<close> within the sequence it has \<open>len(canvases) - first\<close> items.
\<close>

theorem py_slice_count:
  "(0 \<le> first \<and> first \<le> l \<and> l \<le> int (length cs) \<longrightarrow>
      int (length (py_slice cs first (Some l))) = l - first) \<and>
   (0 \<le> first \<and> first \<le> int (length cs) \<longrightarrow>
      int (length (py_slice cs first None)) = int (length cs) - first)"
proof (intro conjI impI)
  assume a: "0 \<le> first \<and> first \<le> l \<and> l \<le> int (length cs)"
  then have "slice_bound (length cs) first = nat first" "slice_bound (length cs) l = nat l"
    by (simp_all add: slice_bound_nonneg)
  with a show "int (length (py_slice cs first (Some l))) = l - first"
    by (auto simp: py_slice_def Let_def min_def)
next
  assume a: "0 \<le> first \<and> first \<le> int (length cs)"
  then have "slice_bound (length cs) first = nat first" by (simp add: slice_bound_nonneg)
  with a show "int (length (py_slice cs first None)) = int (length cs) - first"
    by (auto simp: py_slice_def Let_def min_def)
qed

text \<open>On the three canvases of the concrete gallery, \<open>[1:3]\<close> and \<open>[1:]\<close> select two.\<close>

theorem py_slice_count_witness:
  "int (length (py_slice (hd (sequences demo_manifest)) 1 (Some 3))) = 2 \<and>
   py_slice (hd (sequences demo_manifest)) 1 (Some 3) =
     [\<lparr>label = ''Pagina 2'', images = [''https://iiif/2.jpg'']\<rparr>,
      \<lparr>label = ''Pagina 3'', images = [''https://iiif/3.jpg'']\<rparr>] \<and>
   int (length (py_slice (hd (sequences demo_manifest)) 1 None)) = 2"
proof -
  have n: "length (hd (sequences demo_manifest)) = 3" by (simp add: demo_manifest_def)
  from py_slice_count[of 1 3 "hd (sequences demo_manifest)"] n
  have "int (length (py_slice (hd (sequences demo_manifest)) 1 (Some 3))) = 2"
    and "int (length (py_slice (hd (sequences demo_manifest)) 1 None)) = 2"
    by simp_all
  moreover have "py_slice (hd (sequences demo_manifest)) 1 (Some 3) =
     [\<lparr>label = ''Pagina 2'', images = [''https://iiif/2.jpg'']\<rparr>,
      \<lparr>label = ''Pagina 3'', images = [''https://iiif/3.jpg'']\<rparr>]"
    by (simp add: demo_manifest_def py_slice_def slice_bound_def Let_def)
  ultimately show ?thesis by simp
qed

text \<open>The constructor applies the slice to the first sequence and records its length.\<close>

lemma init_selects:
  assumes "init lb pool locator first last_opt = Inr d"
  shows "\<exists>m s0 ss. get_iiif_manifest lb pool locator = Inr m \<and> sequences m = s0 # ss \<and>
           canvases d = py_slice s0 first last_opt \<and> gallery_length d = length (canvases d)"
  using assms
  by (auto simp: init_def Let_def split: sum.splits list.splits)

section \<open>Properties of the metadata lookup\<close>







section \<open>Properties of the manifest client\<close>

text \<open>
  Claim C10. When the landing page is fetched and read, and the GET of the manifest
  document it names returns a status other than 200, \<open>get_iiif_manifest\<close> fails with
  a \<open>RuntimeError\<close> whose message starts with the locator of the landing page; unless
  the two locators coincide, this is not the message that names the manifest document.
\<close>

theorem manifest_error_names_landing_page:
  assumes "pool 0 locator = Inr r1" and "status r1 = 200"
    and "decode_body lb r1 = Inr page"
    and "find (contains ''manifestId'') (splitlines page) = Some manifest_line"
    and "search_quoted manifest_line = Some manifest_url"
    and "pool 1 manifest_url = Inr r2" and "status r2 \<noteq> 200"
  shows "get_iiif_manifest lb pool locator =
           Inl (RuntimeError (locator @ '': HTTP error '' @ str_int (status r2))) \<and>
         (manifest_url \<noteq> locator \<longrightarrow>
            get_iiif_manifest lb pool locator \<noteq>
              Inl (RuntimeError (manifest_url @ '': HTTP error '' @ str_int (status r2))))"
proof -
  have g: "get_iiif_manifest lb pool locator =
           Inl (RuntimeError (locator @ '': HTTP error '' @ str_int (status r2)))"
    using assms by (simp add: get_iiif_manifest_def)
  then show ?thesis by simp
qed

text \<open>
  The concrete landing page names \<open>https://dam/m/1\<close>, which the concrete network answers
  with 404: the error names the landing page.
\<close>

theorem manifest_error_names_landing_page_witness:
  "search_quoted (splitlines (data landing_page) ! 1) = Some ''https://dam/m/1'' \<and>
   demo_pool 1 ''https://dam/m/1'' = Inr not_found_reply \<and>
   get_iiif_manifest demo_lib demo_pool demo_locator =
     Inl (RuntimeError
       ''https://antenati.cultura.gov.it/ark:/12657/an_ua19944535/w9DWR8x: HTTP error 404'') \<and>
   get_iiif_manifest demo_lib demo_pool demo_locator \<noteq>
     Inl (RuntimeError ''https://dam/m/1: HTTP error 404'')"
proof -
  have 1: "demo_pool 0 demo_locator = Inr landing_page" by (simp add: demo_pool_def)
  have 2: "status landing_page = 200" by (simp add: landing_page_def)
  have 3: "decode_body demo_lib landing_page = Inr (data landing_page)"
    by (simp add: decode_body_def get_content_charset_def demo_lib_def landing_page_def)
  have l: "splitlines (data landing_page) =
      [''<script>'', ''  manifestId: '' @ [CHR 0x27] @ ''https://dam/m/1'' @ [CHR 0x27] @ '','',
       ''</script>'']"
    by (simp add: landing_page_def is_linebreak_def)
  have 4: "find (contains ''manifestId'') (splitlines (data landing_page)) =
      Some (''  manifestId: '' @ [CHR 0x27] @ ''https://dam/m/1'' @ [CHR 0x27] @ '','')"
    by (simp add: l)
  have 5: "search_quoted (''  manifestId: '' @ [CHR 0x27] @ ''https://dam/m/1'' @ [CHR 0x27] @ '','')
      = Some ''https://dam/m/1''"
    by (simp add: url_char_def)
  have 6: "demo_pool 1 ''https://dam/m/1'' = Inr not_found_reply"
    by (simp add: demo_pool_def demo_locator_def)
  have 7: "status not_found_reply \<noteq> 200" by (simp add: not_found_reply_def)
  have "str_int 404 = ''404''" by code_simp
  then have s: "str_int (status not_found_reply) = ''404''"
    by (simp add: not_found_reply_def)
  have n: "''https://dam/m/1'' \<noteq> demo_locator" by (simp add: demo_locator_def)
  from manifest_error_names_landing_page[OF 1 2 3 4 5 6 7] n
  have "get_iiif_manifest demo_lib demo_pool demo_locator =
           Inl (RuntimeError (demo_locator @ '': HTTP error '' @ str_int (status not_found_reply)))"
    and "get_iiif_manifest demo_lib demo_pool demo_locator \<noteq>
           Inl (RuntimeError (''https://dam/m/1'' @ '': HTTP error '' @ str_int (status not_found_reply)))"
    by blast+
  then show ?thesis using 5 6 l by (simp add: s demo_locator_def)
qed

section \<open>Properties of a unit of work\<close>

text \<open>
  Claim C3, as the code has it. A unit whose reply has status 200 and a content type
  for which the extension table has no entry, or an empty one, fails with the
  \<open>RuntimeError\<close> that quotes that content type, after its request and without
  writing a file.
\<close>

theorem thread_main_unknown_content_type:
  assumes "images c = img_url # others" and "pool img_url = Inr r" and "status r = 200"
    and "headers r ''Content-Type'' = Some v"
    and "guess_extension lb (content_type_of lb v) = None \<or>
         guess_extension lb (content_type_of lb v) = Some []"
  shows "thread_main lb pool c w =
           (Inl (RuntimeError (img_url @ '': Unable to guess extension '' @ [CHR 0x22] @
                   content_type_of lb v @ [CHR 0x22])),
            w\<lparr>requests := requests w @ [img_url]\<rparr>)"
  using assms
  by (auto simp: thread_main_def get_content_type_def unable_to_guess_def Let_def)

text \<open>Over the table without an entry for it, \<open>application/octet-stream\<close> fails the unit.\<close>

theorem thread_main_unknown_content_type_witness:
  "guess_extension bare_lib (content_type_of bare_lib ''application/octet-stream'') = None \<and>
   fst (thread_main bare_lib (\<lambda>u. Inr octet_reply)
          \<lparr>label = ''Pagina 1'', images = [''https://iiif/1.jpg'']\<rparr> empty_world) =
     Inl (RuntimeError
       (''https://iiif/1.jpg: Unable to guess extension '' @ [CHR 0x22] @
        ''application/octet-stream'' @ [CHR 0x22])) \<and>
   files (snd (thread_main bare_lib (\<lambda>u. Inr octet_reply)
          \<lparr>label = ''Pagina 1'', images = [''https://iiif/1.jpg'']\<rparr> empty_world)) = Map.empty"
proof -
  have ct: "content_type_of bare_lib ''application/octet-stream'' = ''application/octet-stream''"
    by (simp add: bare_lib_def demo_lib_def case_fold_def)
  have g: "guess_extension bare_lib (content_type_of bare_lib ''application/octet-stream'') = None"
    by (simp add: ct) (simp add: bare_lib_def)
  have a1: "images \<lparr>label = ''Pagina 1'', images = [''https://iiif/1.jpg'']\<rparr> =
      ''https://iiif/1.jpg'' # []" by simp
  have a2: "(\<lambda>u. Inr octet_reply) ''https://iiif/1.jpg'' = (Inr octet_reply :: error + reply)"
    by simp
  have a3: "status octet_reply = 200" by (simp add: octet_reply_def)
  have a4: "headers octet_reply ''Content-Type'' = Some ''application/octet-stream''"
    by (simp add: octet_reply_def)
  have a5: "guess_extension bare_lib (content_type_of bare_lib ''application/octet-stream'') = None \<or>
         guess_extension bare_lib (content_type_of bare_lib ''application/octet-stream'') = Some []"
    using g by simp
  have "thread_main bare_lib (\<lambda>u. Inr octet_reply)
          \<lparr>label = ''Pagina 1'', images = [''https://iiif/1.jpg'']\<rparr> empty_world =
        (Inl (RuntimeError (''https://iiif/1.jpg'' @ '': Unable to guess extension '' @ [CHR 0x22] @
                   content_type_of bare_lib ''application/octet-stream'' @ [CHR 0x22])),
            empty_world\<lparr>requests := requests empty_world @ [''https://iiif/1.jpg'']\<rparr>)"
    by (rule thread_main_unknown_content_type[OF a1 a2 a3 a4 a5])
  then show ?thesis using g by (simp add: ct empty_world_def)
qed

text \<open>
  Claim C3, as stated, fails over the default extension table, which has an entry for
  \<open>application/octet-stream\<close>: the unit succeeds and writes \<open>pagina-1.bin\<close>.
\<close>

theorem octet_stream_counterexample:
  "get_content_type demo_lib (headers octet_reply) = Inr ''application/octet-stream'' \<and>
   fst (thread_main demo_lib (\<lambda>u. Inr octet_reply)
          \<lparr>label = ''Pagina 1'', images = [''https://iiif/1.jpg'']\<rparr> empty_world) = Inr 4 \<and>
   files (snd (thread_main demo_lib (\<lambda>u. Inr octet_reply)
          \<lparr>label = ''Pagina 1'', images = [''https://iiif/1.jpg'']\<rparr> empty_world))
     ''pagina-1.bin'' = Some ''0123''"
proof -
  have ct: "get_content_type demo_lib (headers octet_reply) = Inr ''application/octet-stream''"
    by (simp add: get_content_type_def octet_reply_def demo_lib_def case_fold_def)
  have g: "guess_extension demo_lib ''application/octet-stream'' = Some ''.bin''"
    by (simp add: demo_lib_def demo_types_map_def)
  have sl: "slugify demo_lib ''Pagina 1'' = ''pagina-1''"
    by (simp add: demo_lib_def) code_simp
  have st: "status octet_reply = 200" "data octet_reply = ''0123''"
    by (simp_all add: octet_reply_def)
  show ?thesis
    by (simp add: thread_main_def Let_def ct g sl st empty_world_def)
qed

section \<open>Properties of the fetch engine\<close>

subsection \<open>One unit of work\<close>

lemma thread_main_result: "fst (thread_main lb pool c w) = unit_outcome lb pool c"
  by (simp add: unit_outcome_def thread_main_def Let_def
      split: list.splits sum.splits option.splits)


lemma thread_main_main_log: "main_log (snd (thread_main lb pool c w)) = main_log w"
  by (simp add: thread_main_def Let_def split: list.splits sum.splits option.splits)



lemma unit_of_work_result:
  "fst (unit_of_work lb net fc w) = unit_outcome lb (net (fst fc)) (snd fc)"
  using thread_main_result[of lb "net (fst fc)" "snd fc" w]
  by (simp add: unit_of_work_def split_beta)


lemma unit_of_work_main_log: "main_log (snd (unit_of_work lb net fc w)) = main_log w"
  by (simp add: unit_of_work_def split_beta thread_main_main_log)


subsection \<open>Draining the executor\<close>


lemma shutdown_main_log: "main_log (shutdown lb net rest w) = main_log w"
  by (induction rest arbitrary: w) (simp_all add: unit_of_work_main_log)


subsection \<open>The completion loop\<close>

lemma as_completed_Cons:
  "as_completed lb net (fc # rest) acc w =
     (case unit_outcome lb (net (fst fc)) (snd fc) of
        Inl e \<Rightarrow>
          (Inl e, shutdown lb net rest
                    ((snd (unit_of_work lb net fc w))
                       \<lparr>main_log := main_log (snd (unit_of_work lb net fc w)) @ [Update]\<rparr>))
      | Inr sz \<Rightarrow>
          as_completed lb net rest (acc + sz)
            ((snd (unit_of_work lb net fc w))
               \<lparr>main_log := main_log (snd (unit_of_work lb net fc w)) @ [Update]\<rparr>))"
  using unit_of_work_result[of lb net fc w]
  by (simp add: split_beta Let_def)



lemma as_completed_main_log:
  "\<exists>k\<le>length sched.
     main_log (snd (as_completed lb net sched acc w)) = main_log w @ replicate k Update"
proof (induction sched arbitrary: acc w)
  case Nil
  then show ?case by simp
next
  case (Cons fc rest)
  let ?w = "(snd (unit_of_work lb net fc w))
              \<lparr>main_log := main_log (snd (unit_of_work lb net fc w)) @ [Update]\<rparr>"
  have w: "main_log ?w = main_log w @ [Update]" by (simp add: unit_of_work_main_log)
  show ?case
  proof (cases "unit_outcome lb (net (fst fc)) (snd fc)")
    case (Inl e)
    then have "main_log (snd (as_completed lb net (fc # rest) acc w)) =
        main_log w @ replicate 1 Update"
      by (simp only: as_completed_Cons) (simp add: shutdown_main_log w)
    then show ?thesis by (intro exI[of _ 1]) simp
  next
    case (Inr sz)
    from Cons.IH[of "acc + sz" ?w] obtain k where k: "k \<le> length rest"
      "main_log (snd (as_completed lb net rest (acc + sz) ?w)) = main_log ?w @ replicate k Update"
      by blast
    from Inr have "main_log (snd (as_completed lb net (fc # rest) acc w)) =
        main_log w @ replicate (Suc k) Update"
      by (simp only: as_completed_Cons) (simp add: k w replicate_append_same)
    with k(1) show ?thesis by (intro exI[of _ "Suc k"]) simp
  qed
qed

lemma as_completed_all_succeed:
  "map (\<lambda>fc. unit_outcome lb (net (fst fc)) (snd fc)) sched = map Inr bs \<Longrightarrow>
     fst (as_completed lb net sched acc w) = Inr (acc + sum_list bs)"
proof (induction sched arbitrary: bs acc w)
  case Nil
  then show ?case by simp
next
  case (Cons fc rest)
  from Cons.prems obtain b bs' where bs: "bs = b # bs'"
    and b: "unit_outcome lb (net (fst fc)) (snd fc) = Inr b"
    and r: "map (\<lambda>fc. unit_outcome lb (net (fst fc)) (snd fc)) rest = map Inr bs'"
    by (cases bs) auto
  show ?case
    by (simp only: as_completed_Cons) (simp add: b bs Cons.IH[OF r])
qed


subsection \<open>Completion orders\<close>

lemma mset_map_cong: "mset xs = mset ys \<Longrightarrow> mset (map f xs) = mset (map f ys)"
  by simp

lemma sum_list_map_cong:
  assumes "mset xs = mset ys"
  shows "sum_list (map f xs) = (sum_list (map f ys) :: nat)"
proof -
  from assms have "mset (map f xs) = mset (map f ys)" by (rule mset_map_cong)
  then have "sum_mset (mset (map f xs)) = sum_mset (mset (map f ys))" by (simp only:)
  then show ?thesis by (simp only: sum_mset_sum_list)
qed

lemma completion_order_members:
  assumes "completion_order cs sched" and "fc \<in> set sched"
  shows "fst fc < length cs \<and> snd fc = cs ! fst fc"
proof -
  from assms(1) have "mset sched = mset (zip [0..<length cs] cs)"
    by (simp only: completion_order_def future_img_def)
  then have "set sched = set (zip [0..<length cs] cs)" by (rule mset_eq_setD)
  with assms(2) have "fc \<in> set (zip [0..<length cs] cs)" by simp
  then obtain i where "i < length cs" "fc = ([0..<length cs] ! i, cs ! i)"
    by (auto simp: set_zip)
  then show ?thesis by simp
qed


lemma completion_order_sum:
  assumes "completion_order cs sched" and "length (bs :: nat list) = length cs"
  shows "sum_list (map (\<lambda>fc. bs ! fst fc) sched) = sum_list bs"
proof -
  let ?g = "\<lambda>fc::nat \<times> canvas. bs ! fst fc"
  from assms(1) have "mset sched = mset (zip [0..<length cs] cs)"
    by (simp only: completion_order_def future_img_def)
  then have 1: "sum_list (map ?g sched) = sum_list (map ?g (zip [0..<length cs] cs))"
    by (rule sum_list_map_cong)
  have 2: "map ?g (zip [0..<length cs] cs) = map (\<lambda>i. bs ! i) (map fst (zip [0..<length cs] cs))"
    by (simp only: map_map o_def)
  have "map fst (zip [0..<length cs] cs) = [0..<length bs]" using assms(2) by simp
  then have 3: "map (\<lambda>i. bs ! i) (map fst (zip [0..<length cs] cs)) = bs"
    by (simp only: map_nth)
  show ?thesis by (simp only: 1 2 3)
qed

lemma completion_order_empty: "completion_order [] sched \<Longrightarrow> sched = []"
  by (simp add: completion_order_def future_img_def)

subsection \<open>The run\<close>

lemma run_positive:
  "0 < n_workers \<Longrightarrow>
     run lb net d n_workers n_connections sched w =
       as_completed lb net sched 0
         (w\<lparr>main_log := main_log w @ map (\<lambda>fc. Submit (fst fc)) (future_img (canvases d)) @
                          [SetTotal (gallery_length d)]\<rparr>)"
  by (simp add: run_def Let_def)

lemma submits_future_img:
  "map (\<lambda>fc. Submit (fst fc)) (future_img cs) = map Submit [0..<length cs]"
proof -
  have 1: "map (\<lambda>fc. Submit (fst fc)) (future_img cs) =
      map Submit (map fst (zip [0..<length cs] cs))"
    by (simp only: future_img_def map_map o_def)
  have 2: "map fst (zip [0..<length cs] cs) = [0..<length cs]" by simp
  show ?thesis by (simp only: 1 2)
qed

text \<open>
  Claim C2. When every unit succeeds, with byte counts \<open>bs\<close> in submission order, a run
  with positive limits returns the sum of \<open>bs\<close> under every completion order, so any two
  completion orders give the same total.
\<close>

theorem run_total_bytes:
  assumes "0 < n_workers" and "0 < n_connections"
    and "completion_order (canvases d) sched"
    and "length bs = length (canvases d)"
    and "\<forall>i<length (canvases d). unit_outcome lb (net i) (canvases d ! i) = Inr (bs ! i)"
  shows "fst (run lb net d n_workers n_connections sched w) = Inr (sum_list bs) \<and>
         (\<forall>sched' w'. completion_order (canvases d) sched' \<longrightarrow>
            fst (run lb net d n_workers n_connections sched' w') =
            fst (run lb net d n_workers n_connections sched w))"
proof -
  have total: "fst (run lb net d n_workers n_connections s v) = Inr (sum_list bs)"
    if s: "completion_order (canvases d) s" for s v
  proof -
    have "unit_outcome lb (net (fst fc)) (snd fc) = Inr (bs ! fst fc)" if "fc \<in> set s" for fc
      using completion_order_members[OF s that] assms(5) by simp
    then have "map (\<lambda>fc. unit_outcome lb (net (fst fc)) (snd fc)) s =
        map Inr (map (\<lambda>fc. bs ! fst fc) s)"
      by simp
    then have "fst (as_completed lb net s 0
        (v\<lparr>main_log := main_log v @ map (\<lambda>fc. Submit (fst fc)) (future_img (canvases d)) @
                          [SetTotal (gallery_length d)]\<rparr>)) =
        Inr (0 + sum_list (map (\<lambda>fc. bs ! fst fc) s))"
      by (rule as_completed_all_succeed)
    then show ?thesis
      using completion_order_sum[OF s assms(4)] assms(1) by (simp add: run_positive)
  qed
  show ?thesis using total[OF assms(3)] total by simp
qed

text \<open>
  Three pages of ten bytes each give 30, whether they complete as submitted or the
  second page completes first.
\<close>

theorem run_total_bytes_witness:
  "completion_order (canvases demo_downloader)
     [(1, canvases demo_downloader ! 1), (0, canvases demo_downloader ! 0),
      (2, canvases demo_downloader ! 2)] \<and>
   fst (run demo_lib demo_images demo_downloader 2 1
     [(1, canvases demo_downloader ! 1), (0, canvases demo_downloader ! 0),
      (2, canvases demo_downloader ! 2)] empty_world) = Inr 30 \<and>
   fst (run demo_lib demo_images demo_downloader 2 1
     (future_img (canvases demo_downloader)) empty_world) = Inr 30"
proof -
  have cs: "canvases demo_downloader =
      [\<lparr>label = ''Pagina 1'', images = [''https://iiif/1.jpg'']\<rparr>,
       \<lparr>label = ''Pagina 2'', images = [''https://iiif/2.jpg'']\<rparr>,
       \<lparr>label = ''Pagina 3'', images = [''https://iiif/3.jpg'']\<rparr>]"
    by (simp add: demo_downloader_def demo_manifest_def)
  have o1: "completion_order (canvases demo_downloader)
     [(1, canvases demo_downloader ! 1), (0, canvases demo_downloader ! 0),
      (2, canvases demo_downloader ! 2)]"
    by (simp add: cs completion_order_def future_img_def)
  have o2: "completion_order (canvases demo_downloader) (future_img (canvases demo_downloader))"
    by (simp add: completion_order_def)
  have len: "length [10, 10, 10 :: nat] = length (canvases demo_downloader)"
    by (simp add: cs)
  have ct: "get_content_type demo_lib (headers jpeg_reply) = Inr ''image/jpeg''"
    by (simp add: get_content_type_def jpeg_reply_def demo_lib_def case_fold_def)
  have g: "guess_extension demo_lib ''image/jpeg'' = Some ''.jpg''"
    by (simp add: demo_lib_def demo_types_map_def)
  have st: "status jpeg_reply = 200" "length (data jpeg_reply) = 10"
    by (simp_all add: jpeg_reply_def)
  have u: "unit_outcome demo_lib (demo_images i) c = Inr 10" if "images c \<noteq> []" for i c
    using that
    by (cases "images c")
       (simp_all add: unit_outcome_def thread_main_def Let_def demo_images_def ct g st)
  have all: "\<forall>i<length (canvases demo_downloader).
      unit_outcome demo_lib (demo_images i) (canvases demo_downloader ! i) = Inr ([10, 10, 10] ! i)"
  proof (intro allI impI)
    fix i assume "i < length (canvases demo_downloader)"
    then have "i = 0 \<or> i = 1 \<or> i = 2" by (auto simp: cs)
    then show "unit_outcome demo_lib (demo_images i) (canvases demo_downloader ! i) =
        Inr ([10, 10, 10] ! i)"
      by (auto simp: cs u)
  qed
  have p: "(0::int) < 2" "(0::int) < 1" by simp_all
  from run_total_bytes[OF p o1 len all, of empty_world]
       run_total_bytes[OF p o2 len all, of empty_world] o1
  show ?thesis by simp
qed

text \<open>
  Claim C9. With no canvas selected and a positive worker count, \<open>run\<close> returns 0; the
  only effect is the call \<open>set_total(0)\<close>: nothing is submitted, no request is issued, no
  file is written.
\<close>

theorem run_empty:
  assumes "0 < n_workers" and "canvases d = []"
    and "gallery_length d = length (canvases d)"
    and "completion_order (canvases d) sched"
  shows "run lb net d n_workers n_connections sched w =
           (Inr 0, w\<lparr>main_log := main_log w @ [SetTotal 0]\<rparr>)"
proof -
  from assms(2,4) have "sched = []" by (simp add: completion_order_empty)
  with assms(1,2,3) show ?thesis by (simp add: run_positive future_img_def)
qed

text \<open>The concrete downloader with nothing selected.\<close>

theorem run_empty_witness:
  "completion_order [] [] \<and>
   fst (run demo_lib demo_images (demo_downloader\<lparr>canvases := [], gallery_length := 0\<rparr>) 8 4 []
     empty_world) = Inr 0 \<and>
   main_log (snd (run demo_lib demo_images
     (demo_downloader\<lparr>canvases := [], gallery_length := 0\<rparr>) 8 4 [] empty_world)) = [SetTotal 0] \<and>
   requests (snd (run demo_lib demo_images
     (demo_downloader\<lparr>canvases := [], gallery_length := 0\<rparr>) 8 4 [] empty_world)) = [] \<and>
   finished (snd (run demo_lib demo_images
     (demo_downloader\<lparr>canvases := [], gallery_length := 0\<rparr>) 8 4 [] empty_world)) = []"
proof -
  have o: "completion_order (canvases (demo_downloader\<lparr>canvases := [], gallery_length := 0\<rparr>)) []"
    by (simp add: completion_order_def future_img_def)
  have "run demo_lib demo_images (demo_downloader\<lparr>canvases := [], gallery_length := 0\<rparr>) 8 4 []
      empty_world = (Inr 0, empty_world\<lparr>main_log := main_log empty_world @ [SetTotal 0]\<rparr>)"
    by (rule run_empty[OF _ _ _ o]) simp_all
  then show ?thesis by (simp add: empty_world_def completion_order_def future_img_def)
qed

text \<open>
  Claim C7, as the code has it. In every run with a positive worker count the main
  thread first submits one unit per selected canvas, in order, then initializes the
  progress sink with the item count, and ticks it only afterwards, once for each
  completion it consumes.
\<close>

theorem run_main_log:
  assumes "0 < n_workers"
  shows "\<exists>k\<le>length sched.
           main_log (snd (run lb net d n_workers n_connections sched w)) =
             main_log w @ map Submit [0..<length (canvases d)] @
             [SetTotal (gallery_length d)] @ replicate k Update"
proof -
  let ?w = "w\<lparr>main_log := main_log w @ map (\<lambda>fc. Submit (fst fc)) (future_img (canvases d)) @
                          [SetTotal (gallery_length d)]\<rparr>"
  from as_completed_main_log[of sched lb net 0 ?w] obtain k where k: "k \<le> length sched"
    "main_log (snd (as_completed lb net sched 0 ?w)) = main_log ?w @ replicate k Update"
    by blast
  have "main_log (snd (run lb net d n_workers n_connections sched w)) =
      main_log w @ map Submit [0..<length (canvases d)] @
      [SetTotal (gallery_length d)] @ replicate k Update"
    using assms k(2) by (simp add: run_positive submits_future_img)
  with k(1) show ?thesis by blast
qed

text \<open>The concrete run: three submissions, then the total, then three ticks.\<close>

theorem run_main_log_witness:
  "(0::int) < 2 \<and>
   (\<exists>k\<le>3. main_log (snd (run demo_lib demo_images demo_downloader 2 1
      (future_img (canvases demo_downloader)) empty_world)) =
      [Submit 0, Submit 1, Submit 2, SetTotal 3] @ replicate k Update)"
proof -
  have cs: "length (canvases demo_downloader) = 3" "gallery_length demo_downloader = 3"
    by (simp_all add: demo_downloader_def demo_manifest_def)
  have l: "length (future_img (canvases demo_downloader)) = 3"
    by (simp add: future_img_def cs)
  have u: "[0..<3] = [0, 1, 2]" by (simp add: upt_rec)
  from run_main_log[of 2 "future_img (canvases demo_downloader)" demo_lib demo_images
      demo_downloader 1 empty_world]
  show ?thesis by (simp add: cs l u empty_world_def)
qed

text \<open>
  Claim C7, as stated, fails: on the concrete gallery the three submissions come before
  the call that sets the total.
\<close>

theorem set_total_first_counterexample:
  "main_log (snd (run demo_lib demo_images demo_downloader 2 1
      (future_img (canvases demo_downloader)) empty_world)) =
     [Submit 0, Submit 1, Submit 2, SetTotal 3, Update, Update, Update] \<and>
   \<not> total_set_before_submits (main_log (snd (run demo_lib demo_images demo_downloader 2 1
      (future_img (canvases demo_downloader)) empty_world)))"
proof -
  have "main_log (snd (run demo_lib demo_images demo_downloader 2 1
      (future_img (canvases demo_downloader)) empty_world)) =
     [Submit 0, Submit 1, Submit 2, SetTotal 3, Update, Update, Update]"
    by code_simp
  then show ?thesis by (simp add: total_set_before_submits_def)
qed



end
